theory Spec2Isabelle
  imports Main "HOL-Library.Word"
begin

section \<open>The USB/UART bridge of src/main.c\<close>

text \<open>
  The program keeps all of its state in file-scope variables: the transmit flag
  \<open>tx_busy\<close>, the semaphore \<open>tx_done_sem\<close> (initial count 0, limit 1), the send
  buffer \<open>string_buffer\<close>, the line buffer \<open>rx_buf\<close> and its cursor
  \<open>rx_buf_pos\<close>. The model threads one record of these through every function.
  What the program hands to its collaborators is recorded in the same record: the
  bytes given to \<open>uart_poll_out\<close>, the TX interrupt enable, the lines given to
  \<open>printk\<close> and the messages given to the shell.
\<close>

subsection \<open>Constants\<close>

type_synonym byte = "8 word"

definition MAX_BUFFER_SIZE :: nat where
  "MAX_BUFFER_SIZE = 256"

definition MSG_SIZE :: nat where
  "MSG_SIZE = 128"

definition TERMINATING_CHAR :: byte where
  "TERMINATING_CHAR = 13"

text \<open>The character constants \<open>'\r'\<close>, \<open>'\n'\<close> and \<open>'\0'\<close> of the source.\<close>

definition CR :: byte where
  "CR = 13"

definition LF :: byte where
  "LF = 10"

definition NUL :: byte where
  "NUL = 0"

text \<open>
  The error numbers come from the C library's errno.h, which Zephyr follows:
  ENODEV is 19, EINVAL is 22, and EAGAIN (what \<open>k_sem_take\<close> returns when its
  timeout passes) is 11.
\<close>

definition ENODEV :: int where
  "ENODEV = 19"

definition EINVAL :: int where
  "EINVAL = 22"

definition EAGAIN :: int where
  "EAGAIN = 11"

subsection \<open>State\<close>

text \<open>What the command handlers print on the shell, one constructor per format string.\<close>

datatype shell_msg =
    Usage
  | Sent_successfully "byte list"
  | Failed_to_send int
  | Input_too_long nat
  | Last_received_message "byte list"

record bridge =
  tx_busy :: bool
  tx_done_sem :: nat
  string_buffer :: "byte list"
  rx_buf :: "byte list"
  rx_buf_pos :: int
  tx_irq :: bool
  wire :: "byte list"
  printk_log :: "byte list list"
  shell_log :: "shell_msg list"

text \<open>
  Static storage is zero-initialised: both buffers hold NUL bytes, the cursor is 0,
  the flag is false, and \<open>K_SEM_DEFINE(tx_done_sem, 0, 1)\<close> starts the count at 0.
\<close>

definition init_state :: bridge where
  "init_state =
     \<lparr> tx_busy = False, tx_done_sem = 0,
       string_buffer = replicate MAX_BUFFER_SIZE NUL,
       rx_buf = replicate MSG_SIZE NUL, rx_buf_pos = 0,
       tx_irq = False, wire = [], printk_log = [], shell_log = [] \<rparr>"

subsection \<open>C strings\<close>

text \<open>
  A \<open>char *\<close> read as a string (\<open>strlen\<close>, the \<open>%s\<close> of \<open>printk\<close> and
  \<open>shell_print\<close>) is the bytes before the first NUL.
\<close>

definition c_str :: "byte list \<Rightarrow> byte list" where
  "c_str bs = takeWhile (\<lambda>b. b \<noteq> NUL) bs"

definition strlen :: "byte list \<Rightarrow> nat" where
  "strlen bs = length (c_str bs)"

text \<open>
  \<open>strncpy(dst, src, n)\<close> writes exactly \<open>n\<close> bytes at the start of \<open>dst\<close>: the
  string \<open>src\<close> cut at \<open>n\<close> bytes, padded with NUL when it is shorter.
\<close>

definition strncpy :: "byte list \<Rightarrow> byte list \<Rightarrow> nat \<Rightarrow> byte list" where
  "strncpy dst src n =
     (let body = take n (c_str src)
      in body @ replicate (n - length body) NUL @ drop n dst)"

subsection \<open>The receive half of \<open>uart_cb\<close>\<close>

text \<open>
  The body of the \<open>while\<close> loop for one byte \<open>c\<close>. The comparison
  \<open>rx_buf_pos < (sizeof(rx_buf) - 1)\<close> is between an \<open>int\<close> and a \<open>size_t\<close>,
  so the cursor is converted to unsigned: a negative cursor would compare as a
  huge value and fail the test, which is the first conjunct below.
\<close>

definition rx_byte :: "byte \<Rightarrow> bridge \<Rightarrow> bridge" where
  "rx_byte c s =
     (if (c = LF \<or> c = CR) \<and> rx_buf_pos s > 0 then
        let buf = (rx_buf s)[nat (rx_buf_pos s) := NUL]
        in s\<lparr> rx_buf := buf,
              printk_log := printk_log s @ [c_str buf],
              rx_buf_pos := 0 \<rparr>
      else if 0 \<le> rx_buf_pos s \<and> rx_buf_pos s < int MSG_SIZE - 1 then
        s\<lparr> rx_buf := (rx_buf s)[nat (rx_buf_pos s) := c],
            rx_buf_pos := rx_buf_pos s + 1 \<rparr>
      else s)"

text \<open>
  The loop \<open>while (uart_irq_rx_ready(dev) && uart_fifo_read(dev, &c, 1) == 1)\<close>
  runs the body once for each byte the FIFO yields, in order.
\<close>

primrec rx_loop :: "byte list \<Rightarrow> bridge \<Rightarrow> bridge" where
  "rx_loop [] s = s"
| "rx_loop (c # cs) s = rx_loop cs (rx_byte c s)"

subsection \<open>\<open>cmd_read_last\<close>\<close>

text \<open>The string that \<open>%s\<close> reads out of \<open>rx_buf\<close>.\<close>

definition last_received :: "bridge \<Rightarrow> byte list" where
  "last_received s = c_str (rx_buf s)"

definition cmd_read_last :: "bridge \<Rightarrow> int \<times> bridge" where
  "cmd_read_last s =
     (0, s\<lparr> shell_log := shell_log s @ [Last_received_message (last_received s)] \<rparr>)"

subsection \<open>The interrupt handler \<open>uart_cb\<close>\<close>

text \<open>
  What the UART driver answers during one run of the handler: the result of
  \<open>uart_irq_update\<close>, the bytes the receive loop reads from the FIFO, and the
  result of \<open>uart_irq_tx_ready\<close>.
\<close>

record irq =
  irq_update :: bool
  rx_fifo :: "byte list"
  tx_ready :: bool

text \<open>\<open>k_sem_give\<close> on a semaphore of limit 1: the count goes up unless it is at the limit.\<close>

definition k_sem_give :: "bridge \<Rightarrow> bridge" where
  "k_sem_give s = s\<lparr> tx_done_sem := min 1 (tx_done_sem s + 1) \<rparr>"

definition uart_cb :: "irq \<Rightarrow> bridge \<Rightarrow> bridge" where
  "uart_cb ev s =
     (if \<not> irq_update ev then s
      else
        let s1 = rx_loop (rx_fifo ev) s
        in if tx_ready ev then (k_sem_give (s1\<lparr> tx_busy := False \<rparr>))\<lparr> tx_irq := False \<rparr>
           else s1)"

text \<open>Several runs of the handler, one after the other.\<close>

primrec isr_run :: "irq list \<Rightarrow> bridge \<Rightarrow> bridge" where
  "isr_run [] s = s"
| "isr_run (ev # evs) s = isr_run evs (uart_cb ev s)"

subsection \<open>\<open>uart_send_string\<close>\<close>

text \<open>
  The caller runs with interrupts enabled, so the handler can run wherever the
  caller waits. The environment of one call lists these runs: whether
  \<open>device_is_ready\<close> holds, the handler runs during each \<open>k_sleep\<close> of the
  wait loop, the runs during the \<open>k_busy_wait\<close> after each byte (none once the
  list is used up), and the runs within the 100 ms of \<open>k_sem_take\<close>.
\<close>

record env =
  dev_ready :: bool
  idle_irqs :: "irq list list"
  drain_irqs :: "irq list list"
  wait_irqs :: "irq list"

text \<open>
  \<open>while (tx_busy) k_sleep(K_MSEC(1))\<close>. Only the handler clears the flag, so
  when the flag is set and no further handler run is to come the loop never
  exits: the result is \<open>None\<close>.
\<close>

primrec wait_idle :: "irq list list \<Rightarrow> bridge \<Rightarrow> bridge option" where
  "wait_idle [] s = (if tx_busy s then None else Some s)"
| "wait_idle (evs # rest) s = (if tx_busy s then wait_idle rest (isr_run evs s) else Some s)"

definition uart_poll_out :: "byte \<Rightarrow> bridge \<Rightarrow> bridge" where
  "uart_poll_out b s = s\<lparr> wire := wire s @ [b] \<rparr>"

text \<open>The \<open>for\<close> loop over the bytes to send, with the handler runs after each byte.\<close>

primrec drain_bytes :: "byte list \<Rightarrow> irq list list \<Rightarrow> bridge \<Rightarrow> bridge" where
  "drain_bytes [] irqs s = s"
| "drain_bytes (b # bs) irqs s =
     drain_bytes bs (tl irqs)
       (isr_run (case irqs of [] \<Rightarrow> [] | evs # _ \<Rightarrow> evs) (uart_poll_out b s))"

text \<open>
  \<open>k_sem_take(&tx_done_sem, K_MSEC(100))\<close>: takes the semaphore as soon as its
  count is positive and returns 0; when the handler runs of the timeout window
  are used up and the count is still 0 it returns \<open>-EAGAIN\<close>.
\<close>

primrec k_sem_take :: "irq list \<Rightarrow> bridge \<Rightarrow> int \<times> bridge" where
  "k_sem_take [] s =
     (if tx_done_sem s > 0 then (0, s\<lparr> tx_done_sem := tx_done_sem s - 1 \<rparr>)
      else (- EAGAIN, s))"
| "k_sem_take (ev # evs) s =
     (if tx_done_sem s > 0 then (0, s\<lparr> tx_done_sem := tx_done_sem s - 1 \<rparr>)
      else k_sem_take evs (uart_cb ev s))"

text \<open>
  The loop reads \<open>str[0]\<close> to \<open>str[len - 1]\<close>; both callers pass a length within
  the array, where these are the first \<open>len\<close> bytes.
\<close>

definition uart_send_string :: "env \<Rightarrow> byte list \<Rightarrow> nat \<Rightarrow> bridge \<Rightarrow> (int \<times> bridge) option" where
  "uart_send_string e str len s =
     (if \<not> dev_ready e then Some (- ENODEV, s)
      else
        case wait_idle (idle_irqs e) s of
          None \<Rightarrow> None
        | Some s1 \<Rightarrow>
            Some (k_sem_take (wait_irqs e)
                    (drain_bytes (take len str) (drain_irqs e)
                       (s1\<lparr> tx_busy := True, tx_irq := True \<rparr>))))"

subsection \<open>\<open>cmd_send_string\<close>\<close>

definition memset :: "byte list \<Rightarrow> byte \<Rightarrow> nat \<Rightarrow> byte list" where
  "memset buf v n = replicate n v @ drop n buf"

text \<open>
  \<open>argv\<close> is the list of the arguments and \<open>argc\<close> its length. The handler
  touches only \<open>string_buffer\<close> and the shell outside \<open>uart_send_string\<close>, which
  the interrupt handler never reads or writes, so the environment is that of the
  call of \<open>uart_send_string\<close>.
\<close>

definition cmd_send_string :: "env \<Rightarrow> byte list list \<Rightarrow> bridge \<Rightarrow> (int \<times> bridge) option" where
  "cmd_send_string e argv s =
     (if length argv \<noteq> 2 then
        Some (- EINVAL, s\<lparr> shell_log := shell_log s @ [Usage] \<rparr>)
      else
        let s1 = s\<lparr> string_buffer := memset (string_buffer s) NUL MAX_BUFFER_SIZE \<rparr>;
            input_len = strlen (argv ! 1)
        in if input_len < MAX_BUFFER_SIZE - 2 then
             let buf0 = strncpy (string_buffer s1) (argv ! 1) input_len;
                 buf1 = buf0[input_len := TERMINATING_CHAR];
                 buf2 = buf1[input_len + 1 := LF];
                 s2 = s1\<lparr> string_buffer := buf2 \<rparr>
             in case uart_send_string e (string_buffer s2) (input_len + 2) s2 of
                  None \<Rightarrow> None
                | Some (ret, s3) \<Rightarrow>
                    Some (ret,
                      s3\<lparr> shell_log := shell_log s3 @
                            [if ret = 0 then Sent_successfully (c_str (argv ! 1))
                             else Failed_to_send ret] \<rparr>)
           else
             Some (- EINVAL,
               s1\<lparr> shell_log := shell_log s1 @ [Input_too_long (MAX_BUFFER_SIZE - 2)] \<rparr>))"

subsection \<open>Predicates and inputs of the statements\<close>

text \<open>
  The shape of the line buffer that every run of the receive loop keeps: the
  array has its 128 bytes, the cursor is an index of it below the last one, and
  the last byte is NUL (so a \<open>%s\<close> read of \<open>rx_buf\<close> ends inside the array).
\<close>

definition rx_inv :: "bridge \<Rightarrow> bool" where
  "rx_inv s =
     (length (rx_buf s) = MSG_SIZE \<and> 0 \<le> rx_buf_pos s \<and> rx_buf_pos s \<le> int MSG_SIZE - 1 \<and>
      rx_buf s ! (MSG_SIZE - 1) = NUL)"

text \<open>
  The completion signal is not given within the timeout: the semaphore is not
  available when \<open>k_sem_take\<close> starts, and no handler run of the timeout window
  reaches \<open>k_sem_give\<close>.
\<close>

definition signal_not_given :: "irq list \<Rightarrow> bridge \<Rightarrow> bool" where
  "signal_not_given irqs s =
     (tx_done_sem s = 0 \<and> list_all (\<lambda>ev. \<not> (irq_update ev \<and> tx_ready ev)) irqs)"

text \<open>
  Between \<open>tx_busy = true\<close> and \<open>k_sem_take\<close> the flag is set or the semaphore
  has been given: the handler clears the one and gives the other together.
\<close>

definition tx_token :: "bridge \<Rightarrow> bool" where
  "tx_token s = (tx_busy s \<or> 0 < tx_done_sem s)"

text \<open>
  Inputs of the examples: a handler run that reports the transmitter ready, a
  device that reports it during \<open>k_sem_take\<close>, and a device that never does.
\<close>

definition tx_complete_irq :: irq where
  "tx_complete_irq = \<lparr> irq_update = True, rx_fifo = [], tx_ready = True \<rparr>"

definition prompt_env :: env where
  "prompt_env =
     \<lparr> dev_ready = True, idle_irqs = [], drain_irqs = [], wait_irqs = [tx_complete_irq] \<rparr>"

definition silent_env :: env where
  "silent_env = \<lparr> dev_ready = True, idle_irqs = [], drain_irqs = [], wait_irqs = [] \<rparr>"

section \<open>The receive framer\<close>

subsection \<open>The buffer invariant\<close>

lemma rx_inv_init: "rx_inv init_state"
  by (simp add: rx_inv_def init_state_def MSG_SIZE_def)

lemma rx_inv_rx_byte: "rx_inv s \<Longrightarrow> rx_inv (rx_byte c s)"
  by (auto simp: rx_inv_def rx_byte_def Let_def MSG_SIZE_def nth_list_update)

lemma rx_inv_rx_loop: "rx_inv s \<Longrightarrow> rx_inv (rx_loop cs s)"
  by (induction cs arbitrary: s) (simp_all add: rx_inv_rx_byte)

lemma rx_loop_append: "rx_loop (xs @ ys) s = rx_loop ys (rx_loop xs s)"
  by (induction xs arbitrary: s) simp_all

text \<open>The receive loop leaves the transmit side, the wire and the shell alone.\<close>

lemma rx_byte_frame [simp]:
  "tx_busy (rx_byte c s) = tx_busy s"
  "tx_done_sem (rx_byte c s) = tx_done_sem s"
  "string_buffer (rx_byte c s) = string_buffer s"
  "tx_irq (rx_byte c s) = tx_irq s"
  "wire (rx_byte c s) = wire s"
  "shell_log (rx_byte c s) = shell_log s"
  by (simp_all add: rx_byte_def Let_def)

lemma rx_loop_frame [simp]:
  "tx_busy (rx_loop cs s) = tx_busy s"
  "tx_done_sem (rx_loop cs s) = tx_done_sem s"
  "string_buffer (rx_loop cs s) = string_buffer s"
  "tx_irq (rx_loop cs s) = tx_irq s"
  "wire (rx_loop cs s) = wire s"
  "shell_log (rx_loop cs s) = shell_log s"
  by (induction cs arbitrary: s) simp_all

text \<open>What one run of the handler does to the line buffer is the receive loop alone.\<close>

lemma uart_cb_rx:
  "irq_update ev \<Longrightarrow>
   rx_buf (uart_cb ev s) = rx_buf (rx_loop (rx_fifo ev) s) \<and>
   rx_buf_pos (uart_cb ev s) = rx_buf_pos (rx_loop (rx_fifo ev) s) \<and>
   printk_log (uart_cb ev s) = printk_log (rx_loop (rx_fifo ev) s)"
  by (simp add: uart_cb_def k_sem_give_def Let_def)

subsection \<open>Bytes that are not terminators\<close>

lemma rx_byte_data:
  "c \<noteq> CR \<Longrightarrow> c \<noteq> LF \<Longrightarrow> rx_buf_pos s = int p \<Longrightarrow> p < MSG_SIZE - 1 \<Longrightarrow>
   rx_byte c s = s\<lparr> rx_buf := (rx_buf s)[p := c], rx_buf_pos := int (Suc p) \<rparr>"
  by (simp add: rx_byte_def MSG_SIZE_def)

lemma rx_byte_full:
  "c \<noteq> CR \<Longrightarrow> c \<noteq> LF \<Longrightarrow> rx_buf_pos s = int MSG_SIZE - 1 \<Longrightarrow> rx_byte c s = s"
  by (simp add: rx_byte_def MSG_SIZE_def)

lemma rx_loop_full:
  "CR \<notin> set cs \<Longrightarrow> LF \<notin> set cs \<Longrightarrow> rx_buf_pos s = int MSG_SIZE - 1 \<Longrightarrow> rx_loop cs s = s"
  by (induction cs arbitrary: s) (auto simp: rx_byte_full)

lemma printk_log_rx_data:
  "CR \<notin> set cs \<Longrightarrow> LF \<notin> set cs \<Longrightarrow> printk_log (rx_loop cs s) = printk_log s"
  by (induction cs arbitrary: s) (auto simp: rx_byte_def)

text \<open>While there is room, the bytes go into the buffer from the cursor on.\<close>

lemma rx_loop_fits:
  "CR \<notin> set cs \<Longrightarrow> LF \<notin> set cs \<Longrightarrow> rx_buf_pos s = int p \<Longrightarrow>
   p + length cs \<le> MSG_SIZE - 1 \<Longrightarrow> length (rx_buf s) = MSG_SIZE \<Longrightarrow>
   rx_loop cs s =
     s\<lparr> rx_buf := take p (rx_buf s) @ cs @ drop (p + length cs) (rx_buf s),
         rx_buf_pos := int (p + length cs) \<rparr>"
proof (induction cs arbitrary: s p)
  case Nil
  then show ?case by simp
next
  case (Cons c cs)
  have p: "p < MSG_SIZE - 1" using Cons.prems by simp
  have step: "rx_byte c s = s\<lparr> rx_buf := (rx_buf s)[p := c], rx_buf_pos := int (Suc p) \<rparr>"
    by (rule rx_byte_data) (use Cons.prems p in auto)
  have len: "p < length (rx_buf s)" using Cons.prems p by simp
  have "rx_loop (c # cs) s =
      rx_loop cs (s\<lparr> rx_buf := (rx_buf s)[p := c], rx_buf_pos := int (Suc p) \<rparr>)"
    by (simp add: step)
  also have "\<dots> =
      s\<lparr> rx_buf := take (Suc p) ((rx_buf s)[p := c]) @ cs @
            drop (Suc p + length cs) ((rx_buf s)[p := c]),
          rx_buf_pos := int (Suc p + length cs) \<rparr>"
    using Cons.prems by (subst Cons.IH [where p = "Suc p"]) simp_all
  also have "take (Suc p) ((rx_buf s)[p := c]) = take p (rx_buf s) @ [c]"
    using len by (simp add: take_Suc_conv_app_nth)
  also have "drop (Suc p + length cs) ((rx_buf s)[p := c]) = drop (Suc p + length cs) (rx_buf s)"
    by simp
  finally show ?case by simp
qed

text \<open>Once the cursor reaches the last index but one, the rest is dropped.\<close>

lemma rx_loop_overflow:
  assumes "CR \<notin> set cs" "LF \<notin> set cs" "rx_buf_pos s = int p" "p \<le> MSG_SIZE - 1"
    and "MSG_SIZE - 1 \<le> p + length cs" "length (rx_buf s) = MSG_SIZE"
  shows "rx_loop cs s =
     s\<lparr> rx_buf := take p (rx_buf s) @ take (MSG_SIZE - 1 - p) cs @ drop (MSG_SIZE - 1) (rx_buf s),
         rx_buf_pos := int MSG_SIZE - 1 \<rparr>"
proof -
  let ?k = "MSG_SIZE - 1 - p"
  let ?mid = "s\<lparr> rx_buf := take p (rx_buf s) @ take ?k cs @ drop (MSG_SIZE - 1) (rx_buf s),
         rx_buf_pos := int MSG_SIZE - 1 \<rparr>"
  have len: "length (take ?k cs) = ?k" using assms by simp
  have a: "CR \<notin> set (take ?k cs)" "LF \<notin> set (take ?k cs)"
    using assms(1,2) by (auto dest: in_set_takeD)
  have b: "CR \<notin> set (drop ?k cs)" "LF \<notin> set (drop ?k cs)"
    using assms(1,2) by (auto dest: in_set_dropD)
  have "rx_loop (take ?k cs) s =
      s\<lparr> rx_buf := take p (rx_buf s) @ take ?k cs @ drop (p + length (take ?k cs)) (rx_buf s),
         rx_buf_pos := int (p + length (take ?k cs)) \<rparr>"
    using a assms(3,4,6) len by (intro rx_loop_fits) simp_all
  also have "\<dots> = ?mid"
    using assms(4) len by (simp add: MSG_SIZE_def)
  finally have first: "rx_loop (take ?k cs) s = ?mid" .
  have "rx_loop cs s = rx_loop (take ?k cs @ drop ?k cs) s" by simp
  also have "\<dots> = rx_loop (drop ?k cs) ?mid"
    by (simp only: rx_loop_append first)
  also have "\<dots> = ?mid"
    using b by (intro rx_loop_full) simp_all
  finally show ?thesis .
qed

subsection \<open>Terminators\<close>

lemma rx_byte_terminator:
  "c = CR \<or> c = LF \<Longrightarrow> 0 < rx_buf_pos s \<Longrightarrow>
   rx_byte c s =
     s\<lparr> rx_buf := (rx_buf s)[nat (rx_buf_pos s) := NUL],
         printk_log := printk_log s @ [c_str ((rx_buf s)[nat (rx_buf_pos s) := NUL])],
         rx_buf_pos := 0 \<rparr>"
  by (auto simp: rx_byte_def Let_def)

lemma c_str_until_NUL: "NUL \<notin> set xs \<Longrightarrow> c_str (xs @ NUL # ys) = xs"
  by (auto simp: c_str_def takeWhile_tail)

lemma c_str_snoc_NUL: "c_str (xs @ [NUL]) = c_str xs"
  by (simp add: c_str_def takeWhile_tail)

text \<open>A line that fits, has no NUL in it and is not empty comes out as it went in.\<close>

lemma rx_line:
  assumes "data \<noteq> []" "length data \<le> MSG_SIZE - 1" "NUL \<notin> set data"
    and "CR \<notin> set data" "LF \<notin> set data" "t = CR \<or> t = LF"
    and "rx_buf_pos s = 0" "length (rx_buf s) = MSG_SIZE"
  shows "last_received (rx_loop (data @ [t]) s) = data"
    and "printk_log (rx_loop (data @ [t]) s) = printk_log s @ [data]"
    and "rx_buf_pos (rx_loop (data @ [t]) s) = 0"
proof -
  let ?n = "length data"
  let ?s1 = "s\<lparr> rx_buf := take 0 (rx_buf s) @ data @ drop (0 + ?n) (rx_buf s),
         rx_buf_pos := int (0 + ?n) \<rparr>"
  have s1: "rx_loop data s = ?s1"
    using assms by (intro rx_loop_fits) simp_all
  have pos: "0 < rx_buf_pos ?s1" using assms(1) by simp
  have n: "?n < length (rx_buf s)" using assms(2,8) by (simp add: MSG_SIZE_def)
  have "drop ?n (rx_buf s) = rx_buf s ! ?n # drop (Suc ?n) (rx_buf s)"
    using n by (simp add: Cons_nth_drop_Suc)
  then have upd: "(rx_buf ?s1)[nat (rx_buf_pos ?s1) := NUL] = data @ NUL # drop (Suc ?n) (rx_buf s)"
    by (simp add: list_update_append)
  have fin: "rx_loop (data @ [t]) s = rx_byte t ?s1"
    by (simp add: rx_loop_append s1)
  show "last_received (rx_loop (data @ [t]) s) = data"
    unfolding fin rx_byte_terminator [OF assms(6) pos] upd
    using assms(3) by (simp add: last_received_def c_str_until_NUL)
  show "printk_log (rx_loop (data @ [t]) s) = printk_log s @ [data]"
    unfolding fin rx_byte_terminator [OF assms(6) pos] upd
    using assms(3) by (simp add: c_str_until_NUL)
  show "rx_buf_pos (rx_loop (data @ [t]) s) = 0"
    unfolding fin rx_byte_terminator [OF assms(6) pos] by simp
qed

subsection \<open>The cursor stays inside the buffer\<close>

text \<open>
  Claim C8. Whatever bytes the receive loop has processed since start-up, the
  cursor is between 0 and \<open>MSG_SIZE - 1\<close> = 127, so the index that the
  terminator branch and the append branch write is inside the 128 bytes of
  \<open>rx_buf\<close>. Once the cursor is at 127, bytes that are not terminators leave the
  state as it is, and the next CR or LF sets the cursor back to 0.
\<close>

theorem cursor_within_bounds:
  assumes "s = rx_loop bs init_state"
  shows "0 \<le> rx_buf_pos s \<and> rx_buf_pos s \<le> int MSG_SIZE - 1 \<and>
         length (rx_buf s) = MSG_SIZE \<and> nat (rx_buf_pos s) < length (rx_buf s) \<and>
         (rx_buf_pos s = int MSG_SIZE - 1 \<and> CR \<notin> set cs \<and> LF \<notin> set cs \<longrightarrow>
            rx_loop cs s = s \<and>
            rx_buf_pos (rx_byte CR (rx_loop cs s)) = 0 \<and>
            rx_buf_pos (rx_byte LF (rx_loop cs s)) = 0)"
proof -
  have inv: "rx_inv s"
    using assms by (simp add: rx_inv_rx_loop rx_inv_init)
  then have bounds: "0 \<le> rx_buf_pos s \<and> rx_buf_pos s \<le> int MSG_SIZE - 1 \<and>
         length (rx_buf s) = MSG_SIZE \<and> nat (rx_buf_pos s) < length (rx_buf s)"
    by (auto simp: rx_inv_def MSG_SIZE_def)
  have full: "rx_loop cs s = s \<and>
            rx_buf_pos (rx_byte CR (rx_loop cs s)) = 0 \<and>
            rx_buf_pos (rx_byte LF (rx_loop cs s)) = 0"
    if "rx_buf_pos s = int MSG_SIZE - 1" "CR \<notin> set cs" "LF \<notin> set cs"
  proof -
    have "rx_loop cs s = s" using that by (simp add: rx_loop_full)
    moreover have "0 < rx_buf_pos s" using that(1) by (simp add: MSG_SIZE_def)
    ultimately show ?thesis by (simp add: rx_byte_terminator)
  qed
  from bounds full show ?thesis by blast
qed

text \<open>
  An instance: 127 bytes \<open>a\<close> fill the buffer, \<open>b\<close> and \<open>c\<close> are dropped, and a
  CR then resets the cursor.
\<close>

theorem cursor_within_bounds_witness:
  "rx_buf_pos (rx_loop (replicate 127 97) init_state) = int MSG_SIZE - 1 \<and>
   rx_loop [98, 99] (rx_loop (replicate 127 97) init_state) = rx_loop (replicate 127 97) init_state \<and>
   rx_buf_pos (rx_byte CR (rx_loop [98, 99] (rx_loop (replicate 127 97) init_state))) = 0"
proof -
  have "rx_loop (replicate 127 97) init_state =
     init_state\<lparr> rx_buf := take 0 (rx_buf init_state) @ replicate 127 97 @
         drop (0 + length (replicate 127 (97 :: byte))) (rx_buf init_state),
         rx_buf_pos := int (0 + length (replicate 127 (97 :: byte))) \<rparr>"
    by (rule rx_loop_fits) (simp_all add: CR_def LF_def init_state_def MSG_SIZE_def)
  then have full: "rx_buf_pos (rx_loop (replicate 127 97) init_state) = int MSG_SIZE - 1"
    by (simp add: MSG_SIZE_def)
  have "CR \<notin> set [98, 99]" "LF \<notin> set [98, 99]"
    by (simp_all add: CR_def LF_def)
  with full cursor_within_bounds [OF refl, of "replicate 127 97" "[98, 99]"] show ?thesis
    by blast
qed

subsection \<open>Reading a terminated line back\<close>

text \<open>
  As stated, with any bytes before the terminator, the claim about reading a
  line back fails in two ways that the buffer's design brings: a line of 128
  bytes is cut to the 127 that fit, and a line with a NUL byte in it is read by
  \<open>%s\<close> only up to that byte.
\<close>

theorem read_last_whole_line_counterexample:
  "last_received (rx_loop (replicate 128 97 @ [CR]) init_state) \<noteq> replicate 128 97 \<and>
   last_received (rx_loop ([97, NUL, 98] @ [CR]) init_state) \<noteq> [97, NUL, 98]"
  by code_simp

text \<open>
  Claim C2, amended. Starting from the state at start-up, when the bytes
  received are a line followed by one terminator (CR or LF), and the line is not
  empty, has at most \<open>MSG_SIZE - 1\<close> = 127 bytes, and has no CR, LF or NUL
  byte in it, then \<open>cmd_read_last\<close> prints exactly the line, without the
  terminator, and returns 0.
\<close>

theorem read_last_returns_line:
  assumes "data \<noteq> []" and "length data \<le> MSG_SIZE - 1" and "NUL \<notin> set data"
    and "CR \<notin> set data" and "LF \<notin> set data" and "t = CR \<or> t = LF"
    and "s = rx_loop (data @ [t]) init_state"
  shows "last_received s = data \<and>
         cmd_read_last s = (0, s\<lparr> shell_log := shell_log s @ [Last_received_message data] \<rparr>)"
proof -
  have "last_received s = data"
    unfolding assms(7) using assms(1-6) by (intro rx_line) (simp_all add: init_state_def)
  then show ?thesis by (simp add: cmd_read_last_def)
qed

text \<open>The scenario of the specification: \<open>a\<close>, \<open>b\<close>, CR reads back as \<open>ab\<close>.\<close>

theorem read_last_returns_line_witness:
  "last_received (rx_loop ([97, 98] @ [CR]) init_state) = [97, 98]"
proof -
  have "[97, 98 :: byte] \<noteq> []" "length [97, 98 :: byte] \<le> MSG_SIZE - 1"
    "NUL \<notin> set [97, 98]" "CR \<notin> set [97, 98]" "LF \<notin> set [97, 98]" "CR = CR \<or> CR = LF"
    by (simp_all add: MSG_SIZE_def NUL_def CR_def LF_def)
  from read_last_returns_line [OF this refl] show ?thesis by simp
qed

subsection \<open>Overflow after a published line\<close>

text \<open>
  The program has one buffer: the line that \<open>cmd_read_last\<close> prints is the
  array in which the next line is collected. After \<open>ab\<close> and CR have published
  \<open>ab\<close>, 129 bytes \<open>x\<close> without a terminator publish nothing, and yet
  \<open>cmd_read_last\<close> no longer prints \<open>ab\<close>.
\<close>

theorem overflow_replaces_last_line_counterexample:
  "printk_log (rx_loop [97, 98, CR] init_state) = [[97, 98]] \<and>
   last_received (rx_loop [97, 98, CR] init_state) = [97, 98] \<and>
   printk_log (rx_loop (replicate 129 120) (rx_loop [97, 98, CR] init_state)) = [[97, 98]] \<and>
   last_received (rx_loop (replicate 129 120) (rx_loop [97, 98, CR] init_state)) \<noteq> [97, 98]"
  by code_simp

text \<open>
  Claim C5, amended. Let a terminator \<open>t\<close> publish a line (the cursor is
  positive when it arrives), and let more than \<open>MSG_SIZE\<close> = 128 bytes without
  a terminator follow. Then nothing further is published, every byte after the
  first 127 is discarded (the state is the one that the first 127 bytes alone
  give), and \<open>cmd_read_last\<close> prints those first 127 bytes up to their first
  NUL, not the line published before.
\<close>

theorem overflow_keeps_first_bytes:
  assumes "rx_inv s0" and "0 < rx_buf_pos s0" and "t = CR \<or> t = LF"
    and "CR \<notin> set xs" and "LF \<notin> set xs" and "MSG_SIZE < length xs"
    and "s = rx_byte t s0" and "s' = rx_loop xs s"
  shows "printk_log s = printk_log s0 @ [last_received s] \<and>
         printk_log s' = printk_log s \<and>
         s' = rx_loop (take (MSG_SIZE - 1) xs) s \<and>
         last_received s' = c_str (take (MSG_SIZE - 1) xs)"
proof -
  have s: "s = s0\<lparr> rx_buf := (rx_buf s0)[nat (rx_buf_pos s0) := NUL],
         printk_log := printk_log s0 @ [c_str ((rx_buf s0)[nat (rx_buf_pos s0) := NUL])],
         rx_buf_pos := 0 \<rparr>"
    unfolding assms(7) using assms(3,2) by (rule rx_byte_terminator)
  have pub: "printk_log s = printk_log s0 @ [last_received s]"
    by (simp add: s last_received_def)
  have inv: "rx_inv s"
    unfolding assms(7) using assms(1) by (rule rx_inv_rx_byte)
  have pos: "rx_buf_pos s = int 0" by (simp add: s)
  have len: "length (rx_buf s) = MSG_SIZE" using inv by (simp add: rx_inv_def)
  have last0: "drop (MSG_SIZE - 1) (rx_buf s) = [NUL]"
  proof -
    have "MSG_SIZE - 1 < length (rx_buf s)" using len by (simp add: MSG_SIZE_def)
    then have "drop (MSG_SIZE - 1) (rx_buf s) =
        rx_buf s ! (MSG_SIZE - 1) # drop (Suc (MSG_SIZE - 1)) (rx_buf s)"
      by (simp add: Cons_nth_drop_Suc)
    then show ?thesis using inv len by (simp add: rx_inv_def MSG_SIZE_def)
  qed
  have whole: "rx_loop xs s =
     s\<lparr> rx_buf := take 0 (rx_buf s) @ take (MSG_SIZE - 1 - 0) xs @ drop (MSG_SIZE - 1) (rx_buf s),
         rx_buf_pos := int MSG_SIZE - 1 \<rparr>"
    using assms(4,5) pos _ _ len by (rule rx_loop_overflow) (use assms(6) in simp_all)
  have part: "rx_loop (take (MSG_SIZE - 1) xs) s =
     s\<lparr> rx_buf := take 0 (rx_buf s) @ take (MSG_SIZE - 1 - 0) (take (MSG_SIZE - 1) xs) @
           drop (MSG_SIZE - 1) (rx_buf s),
         rx_buf_pos := int MSG_SIZE - 1 \<rparr>"
  proof (rule rx_loop_overflow [OF _ _ pos _ _ len])
    show "CR \<notin> set (take (MSG_SIZE - 1) xs)" using assms(4) by (auto dest: in_set_takeD)
    show "LF \<notin> set (take (MSG_SIZE - 1) xs)" using assms(5) by (auto dest: in_set_takeD)
    show "0 \<le> MSG_SIZE - 1" by simp
    show "MSG_SIZE - 1 \<le> 0 + length (take (MSG_SIZE - 1) xs)" using assms(6) by simp
  qed
  have same: "s' = rx_loop (take (MSG_SIZE - 1) xs) s"
    unfolding assms(8) whole part by simp
  have log: "printk_log s' = printk_log s"
    unfolding assms(8) using assms(4,5) by (rule printk_log_rx_data)
  have "rx_buf s' = take (MSG_SIZE - 1) xs @ [NUL]"
    unfolding assms(8) whole using last0 by simp
  then have "last_received s' = c_str (take (MSG_SIZE - 1) xs)"
    by (simp add: last_received_def c_str_snoc_NUL)
  with pub log same show ?thesis by simp
qed

text \<open>After \<open>ab\<close> and CR, 129 bytes \<open>x\<close> leave 127 of them to be read.\<close>

theorem overflow_keeps_first_bytes_witness:
  "last_received (rx_loop (replicate 129 120) (rx_byte CR (rx_loop [97, 98] init_state))) =
     replicate 127 120"
proof -
  have a: "rx_inv (rx_loop [97, 98] init_state)"
    by (simp add: rx_inv_rx_loop rx_inv_init del: rx_loop.simps)
  have b: "0 < rx_buf_pos (rx_loop [97, 98] init_state)"
    by code_simp
  have c: "CR = CR \<or> CR = LF" by simp
  have d: "CR \<notin> set (replicate 129 120)" "LF \<notin> set (replicate 129 120)"
    "MSG_SIZE < length (replicate 129 (120 :: byte))"
    by (simp_all add: CR_def LF_def MSG_SIZE_def)
  have e: "c_str (take (MSG_SIZE - 1) (replicate 129 120)) = replicate 127 120"
    by (simp add: c_str_def MSG_SIZE_def NUL_def)
  from overflow_keeps_first_bytes [OF a b c d refl refl]
  have "last_received (rx_loop (replicate 129 120) (rx_byte CR (rx_loop [97, 98] init_state))) =
      c_str (take (MSG_SIZE - 1) (replicate 129 120))"
    by blast
  then show ?thesis unfolding e .
qed

subsection \<open>A terminator that finds the buffer empty\<close>

text \<open>
  The guard \<open>rx_buf_pos > 0\<close> sits in the condition of the terminator branch,
  so a CR or LF that finds the cursor at 0 falls through to the \<open>else if\<close> and
  is stored as the first byte of the next line.

  Claim C6. Two terminators in a row publish no empty line, and the line
  published before them stays what \<open>cmd_read_last\<close> prints. On the code the
  first half holds and the second does not: after \<open>a\<close>, \<open>b\<close>, CR, LF one line
  \<open>ab\<close> has been published, it is what \<open>cmd_read_last\<close> prints after the CR,
  and after the LF \<open>cmd_read_last\<close> prints LF, \<open>b\<close>.
\<close>

theorem second_terminator_overwrites_line:
  "printk_log (rx_loop [97, 98, CR, LF] init_state) = [[97, 98]] \<and>
   last_received (rx_loop [97, 98, CR] init_state) = [97, 98] \<and>
   last_received (rx_loop [97, 98, CR, LF] init_state) = [LF, 98]"
  by code_simp

text \<open>
  Claim C7. No published line has a CR or LF byte in it. On the code, two lines
  sent the way this program itself sends them, with CR and LF after each, are
  published as \<open>a\<close> and as LF, \<open>b\<close>: the LF that follows the first CR is stored
  and comes out at the head of the second line.
\<close>

theorem published_line_contains_terminator:
  "printk_log (rx_loop [97, CR, LF, 98, CR, LF] init_state) = [[97], [LF, 98]] \<and>
   LF \<in> set (last_received (rx_loop [97, CR, LF, 98, CR] init_state))"
  by code_simp

section \<open>The transmit coordinator\<close>

subsection \<open>What the handler and the waits leave alone\<close>

lemma uart_cb_frame [simp]:
  "string_buffer (uart_cb ev s) = string_buffer s"
  "wire (uart_cb ev s) = wire s"
  "shell_log (uart_cb ev s) = shell_log s"
  by (simp_all add: uart_cb_def k_sem_give_def Let_def)

lemma isr_run_frame [simp]:
  "string_buffer (isr_run evs s) = string_buffer s"
  "wire (isr_run evs s) = wire s"
  "shell_log (isr_run evs s) = shell_log s"
  by (induction evs arbitrary: s) simp_all

lemma wait_idle_frame:
  "wait_idle sched s = Some s1 \<Longrightarrow>
   string_buffer s1 = string_buffer s \<and> wire s1 = wire s \<and> shell_log s1 = shell_log s"
  by (induction sched arbitrary: s) (auto split: if_splits)

text \<open>The wait loop is left only with the flag clear.\<close>

lemma wait_idle_clear: "wait_idle sched s = Some s1 \<Longrightarrow> \<not> tx_busy s1"
  by (induction sched arbitrary: s) (auto split: if_splits)

lemma drain_bytes_wire: "wire (drain_bytes bs irqs s) = wire s @ bs"
  by (induction bs arbitrary: irqs s) (simp_all add: uart_poll_out_def)

lemma drain_bytes_frame [simp]:
  "string_buffer (drain_bytes bs irqs s) = string_buffer s"
  "shell_log (drain_bytes bs irqs s) = shell_log s"
  by (induction bs arbitrary: irqs s) (simp_all add: uart_poll_out_def)

lemma k_sem_take_frame [simp]:
  "string_buffer (snd (k_sem_take evs s)) = string_buffer s"
  "wire (snd (k_sem_take evs s)) = wire s"
  "shell_log (snd (k_sem_take evs s)) = shell_log s"
  by (induction evs arbitrary: s) simp_all

subsection \<open>The bytes on the wire\<close>

lemma uart_send_string_wire:
  assumes "uart_send_string e str len s = Some (r, s')"
  shows "wire s' = (if dev_ready e then wire s @ take len str else wire s)"
proof (cases "dev_ready e")
  case False
  with assms show ?thesis by (simp add: uart_send_string_def)
next
  case True
  with assms obtain s1 where w: "wait_idle (idle_irqs e) s = Some s1"
    and r: "(r, s') = k_sem_take (wait_irqs e)
        (drain_bytes (take len str) (drain_irqs e) (s1\<lparr> tx_busy := True, tx_irq := True \<rparr>))"
    by (auto simp: uart_send_string_def split: option.splits)
  have "s' = snd (k_sem_take (wait_irqs e)
        (drain_bytes (take len str) (drain_irqs e) (s1\<lparr> tx_busy := True, tx_irq := True \<rparr>)))"
    using r by (metis snd_conv)
  then have "wire s' = wire s1 @ take len str"
    by (simp add: drain_bytes_wire)
  with w True show ?thesis by (simp add: wait_idle_frame)
qed

lemma success_needs_ready: "uart_send_string e str len s = Some (0, s') \<Longrightarrow> dev_ready e"
  by (auto simp: uart_send_string_def ENODEV_def split: if_splits)

lemma send_buffer_filled:
  assumes "2 \<le> length zs"
  shows "take (length xs + 2) ((xs @ zs)[length xs := a, length xs + 1 := b]) = xs @ [a, b]"
proof -
  obtain z1 z2 zs' where "zs = z1 # z2 # zs'"
    using assms by (cases zs; cases "tl zs") auto
  then show ?thesis by (simp add: list_update_append)
qed

lemma strncpy_whole:
  "strncpy dst src (strlen src) = c_str src @ drop (strlen src) dst"
  by (simp add: strncpy_def strlen_def Let_def)

text \<open>
  Claim C1. For every payload (the string \<open>argv[1]\<close>) of length at most
  \<open>MAX_BUFFER_SIZE - 2\<close>, when \<open>cmd_send_string\<close> returns 0 the bytes handed to
  \<open>uart_poll_out\<close> during the call are the payload, then CR, then LF, and
  nothing else.
\<close>

theorem send_text_success_wire:
  assumes "strlen payload \<le> MAX_BUFFER_SIZE - 2"
    and "cmd_send_string e [cmd, payload] s = Some (0, s')"
  shows "wire s' = wire s @ c_str payload @ [CR, LF]"
proof -
  let ?n = "strlen payload"
  let ?s1 = "s\<lparr> string_buffer := memset (string_buffer s) NUL MAX_BUFFER_SIZE \<rparr>"
  let ?buf = "(strncpy (string_buffer ?s1) payload ?n)[?n := TERMINATING_CHAR, ?n + 1 := LF]"
  let ?s2 = "?s1\<lparr> string_buffer := ?buf \<rparr>"
  have acc: "?n < MAX_BUFFER_SIZE - 2"
    using assms(2) by (auto simp: cmd_send_string_def Let_def EINVAL_def split: if_splits)
  then obtain s3 where send: "uart_send_string e ?buf (?n + 2) ?s2 = Some (0, s3)"
    and s': "s' = s3\<lparr> shell_log := shell_log s3 @ [Sent_successfully (c_str payload)] \<rparr>"
    using assms(2) by (auto simp: cmd_send_string_def Let_def split: option.splits if_splits)
  have "dev_ready e" using send by (rule success_needs_ready)
  then have "wire s3 = wire ?s2 @ take (?n + 2) ?buf"
    using uart_send_string_wire [OF send] by simp
  moreover have "take (?n + 2) ?buf = c_str payload @ [CR, LF]"
  proof -
    have "string_buffer ?s1 = replicate MAX_BUFFER_SIZE NUL @ drop MAX_BUFFER_SIZE (string_buffer s)"
      by (simp add: memset_def)
    then have len: "?n + 2 \<le> length (string_buffer ?s1)"
      using acc by simp
    have "strncpy (string_buffer ?s1) payload ?n = c_str payload @ drop ?n (string_buffer ?s1)"
      by (rule strncpy_whole)
    moreover have "2 \<le> length (drop ?n (string_buffer ?s1))"
      using len by simp
    ultimately show ?thesis
      using send_buffer_filled [of "drop ?n (string_buffer ?s1)" "c_str payload" TERMINATING_CHAR LF]
      by (simp add: strlen_def TERMINATING_CHAR_def CR_def)
  qed
  ultimately show ?thesis using s' by simp
qed

text \<open>The scenario of the specification: \<open>send "hi"\<close> puts \<open>h\<close>, \<open>i\<close>, CR, LF on the wire.\<close>

theorem send_text_success_wire_witness:
  "wire (snd (the (cmd_send_string prompt_env [[], [104, 105]] init_state))) = [104, 105, CR, LF]"
proof -
  have h: "cmd_send_string prompt_env [[], [104, 105]] init_state =
      Some (0, snd (the (cmd_send_string prompt_env [[], [104, 105]] init_state)))"
    by code_simp
  have l: "strlen [104, 105] \<le> MAX_BUFFER_SIZE - 2"
    by code_simp
  from send_text_success_wire [OF l h] show ?thesis
    by (simp add: init_state_def c_str_def NUL_def)
qed

subsection \<open>Payloads that are too long\<close>

lemma cmd_send_string_rejects:
  assumes "MAX_BUFFER_SIZE - 2 \<le> strlen payload"
  shows "cmd_send_string e [cmd, payload] s =
     Some (- EINVAL,
       s\<lparr> string_buffer := memset (string_buffer s) NUL MAX_BUFFER_SIZE,
           shell_log := shell_log s @ [Input_too_long (MAX_BUFFER_SIZE - 2)] \<rparr>)"
  using assms by (simp add: cmd_send_string_def Let_def)

text \<open>
  \<open>memset\<close> comes before the length test, so a rejected call does change the
  send buffer: after \<open>send "hi"\<close> has left \<open>hi\<close>, CR, LF in it, a payload of 255
  bytes is rejected with \<open>-EINVAL\<close> and the buffer is not what it was.
\<close>

theorem too_long_clears_send_buffer_counterexample:
  "fst (the (cmd_send_string prompt_env [[], replicate 255 97]
       (snd (the (cmd_send_string prompt_env [[], [104, 105]] init_state))))) = - EINVAL \<and>
   string_buffer (snd (the (cmd_send_string prompt_env [[], replicate 255 97]
       (snd (the (cmd_send_string prompt_env [[], [104, 105]] init_state)))))) \<noteq>
   string_buffer (snd (the (cmd_send_string prompt_env [[], [104, 105]] init_state)))"
  by code_simp

text \<open>
  Claim C3, amended. For every payload longer than \<open>MAX_BUFFER_SIZE - 2\<close>,
  \<open>cmd_send_string\<close> returns \<open>-EINVAL\<close> after printing the too-long message;
  the transport is not used (the wire and the TX interrupt enable are as
  before), and the busy flag, the semaphore and the receive state are as
  before. The send buffer is not: it has been set to NUL bytes.
\<close>

theorem too_long_rejected:
  assumes "MAX_BUFFER_SIZE - 2 < strlen payload"
  shows "cmd_send_string e [cmd, payload] s =
     Some (- EINVAL,
       s\<lparr> string_buffer := memset (string_buffer s) NUL MAX_BUFFER_SIZE,
           shell_log := shell_log s @ [Input_too_long (MAX_BUFFER_SIZE - 2)] \<rparr>)"
  using assms by (intro cmd_send_string_rejects) simp

theorem too_long_rejected_witness:
  "cmd_send_string prompt_env [[], replicate 255 97] init_state =
     Some (- EINVAL,
       init_state\<lparr> string_buffer := memset (string_buffer init_state) NUL MAX_BUFFER_SIZE,
           shell_log := shell_log init_state @ [Input_too_long (MAX_BUFFER_SIZE - 2)] \<rparr>)"
proof -
  have "MAX_BUFFER_SIZE - 2 < strlen (replicate 255 97)"
    by (simp add: strlen_def c_str_def NUL_def MAX_BUFFER_SIZE_def)
  then show ?thesis by (rule too_long_rejected)
qed

text \<open>
  Claim C4. The payloads accepted are those with length + 2 \<open>\<le>\<close>
  \<open>MAX_BUFFER_SIZE\<close>. The test of the code is \<open>input_len < MAX_BUFFER_SIZE - 2\<close>:
  a payload of 254 bytes has length + 2 = 256 and is turned away with
  \<open>-EINVAL\<close> and the message that gives 254 as the greatest length.
\<close>

theorem payload_of_254_rejected:
  "strlen (replicate 254 97) + 2 \<le> MAX_BUFFER_SIZE \<and>
   cmd_send_string e [cmd, replicate 254 97] s =
     Some (- EINVAL,
       s\<lparr> string_buffer := memset (string_buffer s) NUL MAX_BUFFER_SIZE,
           shell_log := shell_log s @ [Input_too_long (MAX_BUFFER_SIZE - 2)] \<rparr>)"
proof -
  have "strlen (replicate 254 97) = 254"
    by (simp add: strlen_def c_str_def NUL_def)
  then show ?thesis
    by (simp add: cmd_send_string_rejects MAX_BUFFER_SIZE_def)
qed

subsection \<open>The timeout\<close>

lemma uart_cb_no_signal:
  "\<not> (irq_update ev \<and> tx_ready ev) \<Longrightarrow>
   tx_busy (uart_cb ev s) = tx_busy s \<and> tx_done_sem (uart_cb ev s) = tx_done_sem s"
  by (auto simp: uart_cb_def Let_def)

lemma k_sem_take_timeout:
  "signal_not_given evs s \<Longrightarrow>
   fst (k_sem_take evs s) = - EAGAIN \<and> tx_busy (snd (k_sem_take evs s)) = tx_busy s"
proof (induction evs arbitrary: s)
  case Nil
  then show ?case by (simp add: signal_not_given_def)
next
  case (Cons ev evs)
  then have ev: "\<not> (irq_update ev \<and> tx_ready ev)" and sem: "tx_done_sem s = 0"
    by (simp_all add: signal_not_given_def)
  have "signal_not_given evs (uart_cb ev s)"
    using Cons.prems uart_cb_no_signal [OF ev, of s] by (simp add: signal_not_given_def)
  from Cons.IH [OF this] show ?case
    using sem uart_cb_no_signal [OF ev, of s] by simp
qed

lemma tx_token_uart_cb: "tx_token s \<Longrightarrow> tx_token (uart_cb ev s)"
  by (auto simp: tx_token_def uart_cb_def k_sem_give_def Let_def)

lemma tx_token_isr_run: "tx_token s \<Longrightarrow> tx_token (isr_run evs s)"
  by (induction evs arbitrary: s) (simp_all add: tx_token_uart_cb)

lemma tx_token_drain_bytes: "tx_token s \<Longrightarrow> tx_token (drain_bytes bs irqs s)"
proof (induction bs arbitrary: irqs s)
  case Nil
  then show ?case by simp
next
  case (Cons b bs)
  have "tx_token (uart_poll_out b s)"
    using Cons.prems by (simp add: tx_token_def uart_poll_out_def)
  then show ?case by (simp add: Cons.IH tx_token_isr_run)
qed

text \<open>
  Claim C9. Let the device be ready and the wait loop be left, and let \<open>s3\<close>
  be the state in which \<open>k_sem_take\<close> starts. When the completion signal is
  not given within the timeout, \<open>uart_send_string\<close> returns \<open>-EAGAIN\<close>, which
  is neither 0 (success) nor \<open>-ENODEV\<close> (not ready), and \<open>tx_busy\<close> is true in
  the state it returns in.
\<close>

theorem timeout_leaves_busy:
  assumes "dev_ready e"
    and "wait_idle (idle_irqs e) s = Some s1"
    and "s3 = drain_bytes (take len str) (drain_irqs e) (s1\<lparr> tx_busy := True, tx_irq := True \<rparr>)"
    and "signal_not_given (wait_irqs e) s3"
  shows "\<exists>s'. uart_send_string e str len s = Some (- EAGAIN, s') \<and> tx_busy s' \<and>
           - EAGAIN \<noteq> 0 \<and> - EAGAIN \<noteq> - ENODEV"
proof -
  have "tx_token (s1\<lparr> tx_busy := True, tx_irq := True \<rparr>)"
    by (simp add: tx_token_def)
  then have "tx_token s3"
    unfolding assms(3) by (rule tx_token_drain_bytes)
  moreover have "tx_done_sem s3 = 0"
    using assms(4) by (simp add: signal_not_given_def)
  ultimately have busy: "tx_busy s3" by (simp add: tx_token_def)
  have res: "uart_send_string e str len s = Some (k_sem_take (wait_irqs e) s3)"
    using assms(1,2,3) by (simp add: uart_send_string_def)
  obtain r s' where k: "k_sem_take (wait_irqs e) s3 = (r, s')"
    by (cases "k_sem_take (wait_irqs e) s3")
  from k_sem_take_timeout [OF assms(4)] k busy have "r = - EAGAIN" "tx_busy s'"
    by simp_all
  with res k show ?thesis by (simp add: EAGAIN_def ENODEV_def)
qed

text \<open>A device that never reports completion, sending \<open>hi\<close>, CR, LF from start-up.\<close>

theorem timeout_leaves_busy_witness:
  "\<exists>s'. uart_send_string silent_env [104, 105, CR, LF] 4 init_state = Some (- EAGAIN, s') \<and>
         tx_busy s'"
proof -
  have a: "dev_ready silent_env" by (simp add: silent_env_def)
  have b: "wait_idle (idle_irqs silent_env) init_state = Some init_state"
    by (simp add: silent_env_def init_state_def)
  have c: "signal_not_given (wait_irqs silent_env)
      (drain_bytes (take 4 [104, 105, CR, LF]) (drain_irqs silent_env)
         (init_state\<lparr> tx_busy := True, tx_irq := True \<rparr>))"
    by (simp add: signal_not_given_def silent_env_def uart_poll_out_def init_state_def)
  from timeout_leaves_busy [OF a b refl c] show ?thesis by blast
qed

end
